theory Spec2Isabelle
  imports Complex_Main "HOL-Library.Log_Nat"
begin

section \<open>Single-precision floats\<close>

text \<open>
  The player keeps its position, volume and samples in C++ \<open>float\<close>. A float is modelled
  by its value: a rational, an infinity or NaN. Every arithmetic operation computes the exact
  rational result and rounds it to binary32 (24 significant bits, exponents from \<open>-126\<close>
  to \<open>127\<close>, subnormals, round to nearest with ties to even, overflow to infinity).
  The sign of a zero is not represented: the player inspects floats only through \<open><\<close>,
  \<open>>=\<close> and the conversion to \<open>int\<close>, which cannot tell the two zeros apart, and every
  divisor in the program is a converted \<open>int\<close>, which is never a negative zero.
\<close>

datatype f32 = Fin rat | PInf | NInf | NaN

definition pow2 :: "int \<Rightarrow> rat" where
  "pow2 e = (if 0 \<le> e then 2 ^ nat e else 1 / 2 ^ nat (- e))"

text \<open>The exponent of the leading bit of a positive rational: \<open>\<lfloor>log\<^sub>2 a\<rfloor>\<close>.\<close>

definition ilog2 :: "rat \<Rightarrow> int" where
  "ilog2 a = (if 1 \<le> a then bitlen \<lfloor>a\<rfloor> - 1 else - bitlen (\<lceil>1 / a\<rceil> - 1))"

text \<open>The nearest integer, ties to the even one.\<close>

definition rne :: "rat \<Rightarrow> int" where
  "rne x = (let f = \<lfloor>x\<rfloor>; d = x - of_int f in
     if d < 1 / 2 then f else if 1 / 2 < d then f + 1 else if even f then f else f + 1)"

definition round32 :: "rat \<Rightarrow> f32" where
  "round32 r = (if r = 0 then Fin 0 else
     let a = \<bar>r\<bar>;
         q = pow2 (max (ilog2 a) (- 126) - 23);
         m = of_int (rne (a / q)) * q
     in if pow2 128 \<le> m then (if 0 < r then PInf else NInf)
        else Fin (if 0 < r then m else - m))"

text \<open>\<open>static_cast<float>(i)\<close> for an \<open>int\<close>, and the implicit conversion of an \<open>int\<close>
  operand in mixed arithmetic.\<close>

definition of_int32 :: "int \<Rightarrow> f32" where
  "of_int32 i = round32 (of_int i)"

fun fadd :: "f32 \<Rightarrow> f32 \<Rightarrow> f32" where
  "fadd (Fin a) (Fin b) = round32 (a + b)"
| "fadd NaN y = NaN"
| "fadd x NaN = NaN"
| "fadd PInf NInf = NaN"
| "fadd NInf PInf = NaN"
| "fadd PInf y = PInf"
| "fadd NInf y = NInf"
| "fadd (Fin a) y = y"

fun fmul :: "f32 \<Rightarrow> f32 \<Rightarrow> f32" where
  "fmul (Fin a) (Fin b) = round32 (a * b)"
| "fmul NaN y = NaN"
| "fmul x NaN = NaN"
| "fmul PInf (Fin b) = (if b = 0 then NaN else if 0 < b then PInf else NInf)"
| "fmul NInf (Fin b) = (if b = 0 then NaN else if 0 < b then NInf else PInf)"
| "fmul (Fin a) PInf = (if a = 0 then NaN else if 0 < a then PInf else NInf)"
| "fmul (Fin a) NInf = (if a = 0 then NaN else if 0 < a then NInf else PInf)"
| "fmul PInf PInf = PInf"
| "fmul PInf NInf = NInf"
| "fmul NInf PInf = NInf"
| "fmul NInf NInf = PInf"

fun fdiv :: "f32 \<Rightarrow> f32 \<Rightarrow> f32" where
  "fdiv (Fin a) (Fin b) =
     (if b = 0 then (if a = 0 then NaN else if 0 < a then PInf else NInf)
      else round32 (a / b))"
| "fdiv NaN y = NaN"
| "fdiv x NaN = NaN"
| "fdiv (Fin a) y = Fin 0"
| "fdiv PInf (Fin b) = (if 0 \<le> b then PInf else NInf)"
| "fdiv NInf (Fin b) = (if 0 \<le> b then NInf else PInf)"
| "fdiv x y = NaN"

text \<open>The comparison \<open>x < y\<close> of C++: false as soon as one side is NaN.\<close>

fun flt :: "f32 \<Rightarrow> f32 \<Rightarrow> bool" where
  "flt (Fin a) (Fin b) = (a < b)"
| "flt NaN y = False"
| "flt x NaN = False"
| "flt x NInf = False"
| "flt PInf y = False"
| "flt x y = True"

fun fle :: "f32 \<Rightarrow> f32 \<Rightarrow> bool" where
  "fle (Fin a) (Fin b) = (a \<le> b)"
| "fle NaN y = False"
| "fle x NaN = False"
| "fle NInf y = True"
| "fle x PInf = True"
| "fle x y = False"

definition fge :: "f32 \<Rightarrow> f32 \<Rightarrow> bool" where
  "fge x y = fle y x"

text \<open>\<open>std::min(a, b)\<close> is \<open>(b < a) ? b : a\<close> and \<open>std::max(a, b)\<close> is
  \<open>(a < b) ? b : a\<close>.\<close>

definition std_min :: "f32 \<Rightarrow> f32 \<Rightarrow> f32" where
  "std_min a b = (if flt b a then b else a)"

definition std_max :: "f32 \<Rightarrow> f32 \<Rightarrow> f32" where
  "std_max a b = (if flt a b then b else a)"

section \<open>Undefined behaviour as a value\<close>

text \<open>
  The operations of the callback that C++ leaves undefined are branches of the model:
  reading \<open>m_interleavedData\<close> outside its bounds, \<open>%\<close> or \<open>/\<close> by zero, signed
  \<open>int\<close> overflow, converting to \<open>int\<close> a float that is NaN, infinite or out of range,
  and writing past the end of the device's output buffer.
\<close>

datatype ub = OutOfBounds | DivByZero | IntOverflow | BadCast | BufferOverrun

definition andThen :: "ub + 'a \<Rightarrow> ('a \<Rightarrow> ub + 'b) \<Rightarrow> ub + 'b" where
  "andThen m f = (case m of Inl e \<Rightarrow> Inl e | Inr x \<Rightarrow> f x)"

definition i32 :: "int \<Rightarrow> ub + int" where
  "i32 i = (if - (2 ^ 31) \<le> i \<and> i < 2 ^ 31 then Inr i else Inl IntOverflow)"

text \<open>\<open>static_cast<int>(x)\<close>: truncation towards zero.\<close>

definition f2i :: "f32 \<Rightarrow> ub + int" where
  "f2i x = (case x of
     Fin r \<Rightarrow> (let t = (if 0 \<le> r then \<lfloor>r\<rfloor> else \<lceil>r\<rceil>) in
                if - (2 ^ 31) \<le> t \<and> t < 2 ^ 31 then Inr t else Inl BadCast)
   | _ \<Rightarrow> Inl BadCast)"

text \<open>\<open>a % b\<close> on \<open>int\<close>: the remainder has the sign of the dividend.\<close>

definition c_rem :: "int \<Rightarrow> int \<Rightarrow> ub + int" where
  "c_rem a b = (if b = 0 then Inl DivByZero else Inr (sgn a * (\<bar>a\<bar> mod \<bar>b\<bar>)))"

text \<open>\<open>v[i]\<close> on a \<open>std::vector\<close>.\<close>

definition vec_at :: "'a list \<Rightarrow> int \<Rightarrow> ub + 'a" where
  "vec_at v i = (if 0 \<le> i \<and> i < int (length v) then Inr (v ! nat i) else Inl OutOfBounds)"

text \<open>The values of \<open>i\<close> in \<open>for (auto i = 0; i < n; i++)\<close>.\<close>

definition ints :: "int \<Rightarrow> int list" where
  "ints n = map int [0..<nat n]"

text \<open>A loop whose body appends samples to the output: the bodies run in order and the
  first undefined step ends the run.\<close>

primrec collect :: "('i \<Rightarrow> ub + 'a list) \<Rightarrow> 'i list \<Rightarrow> ub + 'a list" where
  "collect f [] = Inr []"
| "collect f (i # is) =
     andThen (f i) (\<lambda>xs. andThen (collect f is) (\<lambda>ys. Inr (xs @ ys)))"

section \<open>The player and the device\<close>

datatype AudioState =
  AUDIO_STATE_IDLE | AUDIO_STATE_PLAYING | AUDIO_STATE_PAUSED | AUDIO_STATE_STOPPED

datatype Result = OK | Error

datatype DataCallbackResult = Continue | Stop

datatype StreamState = Open | Started | Paused | Stopped

record AudioStream =
  getChannelCount :: int
  getSampleRate :: int
  getState :: StreamState

text \<open>The audio device: how many streams were ever opened on it (the next stream's
  address) and the streams that are open, that is opened and not closed since.\<close>

record Device =
  opened :: nat
  streams :: "(nat \<times> AudioStream) list"

record AudioData =
  channelCount :: int
  sampleRate :: int
  samples :: "f32 list"

text \<open>\<open>m_delayThread\<close>: no thread, a worker that will wake at the given time
  (milliseconds), or a worker that has returned and was not joined.\<close>

datatype DelayThread = NoThread | Waiting int | Finished

record UnityAudioPlayer =
  m_state :: AudioState
  m_currentTime :: f32
  m_volume :: f32
  m_loop :: bool
  m_clipPath :: string
  m_delayTime :: f32
  m_audioStream :: "nat option"
  m_audioData :: "AudioData option"
  m_interleavedData :: "f32 list"
  m_sampleRate :: int
  m_channels :: int
  m_totalFrames :: int
  m_delayThread :: DelayThread
  m_delayCancelled :: bool

text \<open>The constructor.\<close>

definition newPlayer :: UnityAudioPlayer where
  "newPlayer = \<lparr> m_state = AUDIO_STATE_IDLE, m_currentTime = Fin 0, m_volume = Fin 1,
     m_loop = False, m_clipPath = [], m_delayTime = Fin 0, m_audioStream = None,
     m_audioData = None, m_interleavedData = [], m_sampleRate = 48000, m_channels = 2,
     m_totalFrames = 0, m_delayThread = NoThread, m_delayCancelled = False \<rparr>"

definition newDevice :: Device where
  "newDevice = \<lparr> opened = 0, streams = [] \<rparr>"

subsection \<open>The stream library\<close>

text \<open>
  Modelled from the spec: the Oboe stream library (\<open>AudioStreamBuilder::openStream\<close>,
  \<open>requestStart\<close>, \<open>start\<close>, \<open>pause\<close>, \<open>stop\<close>, \<open>close\<close>) is an external collaborator and
  is not among the sources. Whether an open or a start succeeds is the device's answer and is
  a parameter. \<open>openStream\<close> first releases the pointer it is given; on success it hands out
  a new open stream with the requested channel count and sample rate, on failure it leaves the
  pointer empty. A stream stays open until \<open>close\<close> is called on it.
\<close>

definition openStream :: "Result \<Rightarrow> int \<Rightarrow> int \<Rightarrow> Device \<Rightarrow> Result \<times> nat option \<times> Device" where
  "openStream answer channels rate dev =
     (if answer = OK
      then (OK, Some (opened dev),
            dev\<lparr> opened := Suc (opened dev),
                 streams := streams dev @
                   [(opened dev, \<lparr> getChannelCount = channels, getSampleRate = rate,
                                   getState = Open \<rparr>)] \<rparr>)
      else (answer, None, dev))"

definition setStreamState :: "nat \<Rightarrow> StreamState \<Rightarrow> Device \<Rightarrow> Device" where
  "setStreamState h st dev =
     dev\<lparr> streams := map (\<lambda>(k, s). if k = h then (k, s\<lparr> getState := st \<rparr>) else (k, s))
                          (streams dev) \<rparr>"

definition requestStart :: "Result \<Rightarrow> nat \<Rightarrow> Device \<Rightarrow> Result \<times> Device" where
  "requestStart answer h dev =
     (if answer = OK then (OK, setStreamState h Started dev) else (answer, dev))"

definition closeStream :: "nat \<Rightarrow> Device \<Rightarrow> Device" where
  "closeStream h dev = dev\<lparr> streams := filter (\<lambda>(k, s). k \<noteq> h) (streams dev) \<rparr>"

subsection \<open>Transport controls\<close>

definition unpause :: "UnityAudioPlayer \<times> Device \<Rightarrow> UnityAudioPlayer \<times> Device" where
  "unpause pd = (case pd of (p, dev) \<Rightarrow>
     (case m_audioStream p of
        Some h \<Rightarrow>
          if m_state p = AUDIO_STATE_PAUSED
          then (p\<lparr> m_state := AUDIO_STATE_PLAYING \<rparr>, setStreamState h Started dev)
          else (p, dev)
      | None \<Rightarrow> (p, dev)))"

text \<open>\<open>play\<close>; the two answers are the device's to \<open>openStream\<close> and to
  \<open>requestStart\<close>. An open that answers \<open>OK\<close> always hands out a stream, so the
  last branch is never taken.\<close>

definition play :: "Result \<Rightarrow> Result \<Rightarrow> UnityAudioPlayer \<times> Device \<Rightarrow> UnityAudioPlayer \<times> Device" where
  "play openAnswer startAnswer pd = (case pd of (p, dev) \<Rightarrow>
     if m_state p = AUDIO_STATE_PAUSED then unpause (p, dev)
     else (case openStream openAnswer (m_channels p) (m_sampleRate p) dev of
       (result, stream, dev1) \<Rightarrow>
         (let p1 = p\<lparr> m_audioStream := stream \<rparr> in
          if result \<noteq> OK then (p1, dev1)
          else (case stream of
            Some h \<Rightarrow>
              (case requestStart startAnswer h dev1 of
                (result2, dev2) \<Rightarrow>
                  if result2 = OK then (p1\<lparr> m_state := AUDIO_STATE_PLAYING \<rparr>, dev2)
                  else (p1, dev2))
          | None \<Rightarrow> (p1, dev1)))))"

definition pause :: "UnityAudioPlayer \<times> Device \<Rightarrow> UnityAudioPlayer \<times> Device" where
  "pause pd = (case pd of (p, dev) \<Rightarrow>
     (case m_audioStream p of
        Some h \<Rightarrow>
          if m_state p = AUDIO_STATE_PLAYING
          then (p\<lparr> m_state := AUDIO_STATE_PAUSED \<rparr>, setStreamState h Paused dev)
          else (p, dev)
      | None \<Rightarrow> (p, dev)))"

definition stop :: "UnityAudioPlayer \<times> Device \<Rightarrow> UnityAudioPlayer \<times> Device" where
  "stop pd = (case pd of (p, dev) \<Rightarrow>
     (case m_audioStream p of
        Some h \<Rightarrow>
          (p\<lparr> m_state := AUDIO_STATE_STOPPED, m_currentTime := Fin 0 \<rparr>,
           setStreamState h Stopped dev)
      | None \<Rightarrow> (p, dev)))"

definition getMusicLength :: "UnityAudioPlayer \<Rightarrow> f32" where
  "getMusicLength p = fdiv (of_int32 (m_totalFrames p)) (of_int32 (m_sampleRate p))"

definition getCurrentTime :: "UnityAudioPlayer \<Rightarrow> f32" where
  "getCurrentTime p = m_currentTime p"

definition setCurrentTime :: "f32 \<Rightarrow> UnityAudioPlayer \<Rightarrow> UnityAudioPlayer" where
  "setCurrentTime time p =
     p\<lparr> m_currentTime := std_max (Fin 0) (std_min time (getMusicLength p)) \<rparr>"

definition offsetTime :: "f32 \<Rightarrow> UnityAudioPlayer \<Rightarrow> UnityAudioPlayer" where
  "offsetTime offset p = setCurrentTime (fadd (m_currentTime p) offset) p"

definition resetTime :: "UnityAudioPlayer \<Rightarrow> UnityAudioPlayer" where
  "resetTime p = p\<lparr> m_currentTime := Fin 0 \<rparr>"

definition restartTime :: "Result \<Rightarrow> Result \<Rightarrow> UnityAudioPlayer \<times> Device \<Rightarrow> UnityAudioPlayer \<times> Device" where
  "restartTime openAnswer startAnswer pd = (case pd of (p, dev) \<Rightarrow>
     (let p1 = p\<lparr> m_currentTime := Fin 0 \<rparr> in
      if m_state p1 = AUDIO_STATE_PLAYING
      then play openAnswer startAnswer (stop (p1, dev))
      else (p1, dev)))"

definition setVolume :: "f32 \<Rightarrow> UnityAudioPlayer \<Rightarrow> UnityAudioPlayer" where
  "setVolume volume p = p\<lparr> m_volume := std_max (Fin 0) (std_min (Fin 1) volume) \<rparr>"

definition getVolume :: "UnityAudioPlayer \<Rightarrow> f32" where
  "getVolume p = m_volume p"

definition setLoop :: "bool \<Rightarrow> UnityAudioPlayer \<Rightarrow> UnityAudioPlayer" where
  "setLoop loop p = p\<lparr> m_loop := loop \<rparr>"

definition isPlaying :: "UnityAudioPlayer \<Rightarrow> bool" where
  "isPlaying p = (m_state p = AUDIO_STATE_PLAYING)"

subsection \<open>Loading a clip\<close>

text \<open>
  Modelled from the spec: the platform's asset manager and file system and the libnyquist
  decoder are external collaborators and are not among the sources. An asset or a file is
  given by its length and by the bytes a read delivers; the decoder either fills the
  \<open>AudioData\<close> or throws, leaving the \<open>AudioData\<close> in some state.
\<close>

record Asset =
  getLength :: nat
  readBytes :: "char list"

datatype LoadOutcome = Decoded AudioData | Throws AudioData

record Env =
  g_assetManager :: "(string \<Rightarrow> Asset option) option"
  fileSystem :: "string \<Rightarrow> Asset option"
  nyquistLoad :: "string \<Rightarrow> char list \<Rightarrow> LoadOutcome"

definition loadAssetData :: "Env \<Rightarrow> string \<Rightarrow> char list" where
  "loadAssetData env filename =
     (case g_assetManager env of
        None \<Rightarrow> []
      | Some manager \<Rightarrow>
          (case manager filename of
             None \<Rightarrow> []
           | Some asset \<Rightarrow>
               if length (readBytes asset) \<noteq> getLength asset then [] else readBytes asset))"

definition loadFileData :: "Env \<Rightarrow> string \<Rightarrow> char list" where
  "loadFileData env filename =
     (case fileSystem env filename of
        None \<Rightarrow> []
      | Some file \<Rightarrow>
          if length (readBytes file) \<noteq> getLength file then [] else readBytes file)"

text \<open>\<open>samples.size() / m_channels\<close> divides a \<open>size_t\<close> by an \<open>int\<close>: the \<open>int\<close> is
  converted to \<open>size_t\<close> (64 bits on the 64-bit Android targets), the division is unsigned,
  and the quotient is narrowed to \<open>int\<close>.\<close>

definition to_size_t :: "int \<Rightarrow> int" where
  "to_size_t i = i mod 2 ^ 64"

definition to_int :: "int \<Rightarrow> int" where
  "to_int i = (i + 2 ^ 31) mod 2 ^ 32 - 2 ^ 31"

definition loadAudioData :: "Env \<Rightarrow> string \<Rightarrow> UnityAudioPlayer \<Rightarrow> ub + (bool \<times> UnityAudioPlayer)" where
  "loadAudioData env filePath p =
     (let isAsset = (take 7 filePath = ''assets/'');
          fileData = (if isAsset then loadAssetData env (drop 7 filePath)
                      else loadFileData env filePath)
      in if fileData = [] then Inr (False, p)
         else (case nyquistLoad env filePath fileData of
            Throws a \<Rightarrow> Inr (False, p\<lparr> m_audioData := Some a \<rparr>)
          | Decoded a \<Rightarrow>
              if to_size_t (channelCount a) = 0 then Inl DivByZero
              else Inr (True,
                p\<lparr> m_audioData := Some (a\<lparr> samples := [] \<rparr>),
                   m_sampleRate := sampleRate a,
                   m_channels := channelCount a,
                   m_totalFrames :=
                     to_int (int (length (samples a)) div to_size_t (channelCount a)),
                   m_interleavedData := samples a \<rparr>)))"

definition setClip :: "Env \<Rightarrow> string \<Rightarrow> UnityAudioPlayer \<Rightarrow> ub + (bool \<times> UnityAudioPlayer)" where
  "setClip env clipPath p = loadAudioData env clipPath (p\<lparr> m_clipPath := clipPath \<rparr>)"

subsection \<open>The audio callback\<close>

definition generateSilence :: "int \<Rightarrow> int \<Rightarrow> ub + f32 list" where
  "generateSilence numFrames channels =
     andThen (i32 (numFrames * channels)) (\<lambda>k. Inr (replicate (nat k) (Fin 0)))"

text \<open>The inner loop over the output channels, for the source frame that starts at
  \<open>srcIndex\<close>.\<close>

definition copyFrame :: "UnityAudioPlayer \<Rightarrow> int \<Rightarrow> int \<Rightarrow> ub + f32 list" where
  "copyFrame p outputChannels srcIndex =
     collect (\<lambda>c.
       andThen (c_rem c (m_channels p)) (\<lambda>srcChannel.
       andThen (i32 (srcIndex + srcChannel)) (\<lambda>k.
       andThen (vec_at (m_interleavedData p) k) (\<lambda>x.
       Inr [fmul x (m_volume p)]))))
     (ints outputChannels)"

text \<open>The device's buffer holds \<open>numFrames\<close> frames of \<open>outputChannels\<close> samples; the
  callback writes through a pointer that it only ever advances.\<close>

definition written :: "int \<Rightarrow> int \<Rightarrow> f32 list \<Rightarrow> ub + f32 list" where
  "written numFrames outputChannels out =
     (if int (length out) \<le> max 0 (numFrames * outputChannels) then Inr out
      else Inl BufferOverrun)"

definition currentFrame :: "UnityAudioPlayer \<Rightarrow> ub + int" where
  "currentFrame p = f2i (fmul (m_currentTime p) (of_int32 (m_sampleRate p)))"

definition onAudioReady ::
  "AudioStream \<Rightarrow> int \<Rightarrow> UnityAudioPlayer \<Rightarrow> ub + (DataCallbackResult \<times> f32 list \<times> UnityAudioPlayer)" where
  "onAudioReady audioStream numFrames p =
     (if m_state p \<noteq> AUDIO_STATE_PLAYING \<or> m_interleavedData p = []
      then andThen (generateSilence numFrames (getChannelCount audioStream))
             (\<lambda>out. Inr (Continue, out, p))
      else
        (let frameTime = fdiv (of_int32 numFrames) (of_int32 (getSampleRate audioStream));
             outputChannels = getChannelCount audioStream
         in
         andThen (currentFrame p) (\<lambda>cur.
         andThen (i32 (m_totalFrames p - cur)) (\<lambda>framesRemaining.
         (let framesToCopy = min numFrames framesRemaining in
          andThen
            (if 0 < framesToCopy
             then collect (\<lambda>i.
                    andThen (i32 (cur + i)) (\<lambda>f.
                    andThen (i32 (f * m_channels p)) (\<lambda>srcIndex.
                    copyFrame p outputChannels srcIndex)))
                  (ints framesToCopy)
             else Inr [])
            (\<lambda>copied.
          if framesToCopy < numFrames then
            (if m_loop p then
               andThen (i32 (numFrames - framesToCopy)) (\<lambda>remainingFrames.
               andThen
                 (collect (\<lambda>i.
                    andThen (c_rem i (m_totalFrames p)) (\<lambda>f.
                    andThen (i32 (f * m_channels p)) (\<lambda>srcIndex.
                    copyFrame p outputChannels srcIndex)))
                  (ints remainingFrames))
                 (\<lambda>wrapped.
               andThen (written numFrames outputChannels (copied @ wrapped)) (\<lambda>out.
               Inr (Continue, out,
                    p\<lparr> m_currentTime :=
                         fdiv (of_int32 remainingFrames) (of_int32 (m_sampleRate p)) \<rparr>))))
             else
               andThen (i32 (numFrames - framesToCopy)) (\<lambda>rest.
               andThen (generateSilence rest outputChannels) (\<lambda>silence.
               andThen (written numFrames outputChannels (copied @ silence)) (\<lambda>out.
               (let p1 = p\<lparr> m_currentTime := fadd (m_currentTime p) frameTime \<rparr> in
                if fge (m_currentTime p1) (getMusicLength p1)
                then Inr (Stop, out, p1\<lparr> m_state := AUDIO_STATE_STOPPED \<rparr>)
                else Inr (Continue, out, p1))))))
          else
            andThen (written numFrames outputChannels copied) (\<lambda>out.
            Inr (Continue, out,
                 p\<lparr> m_currentTime := fadd (m_currentTime p) frameTime \<rparr>))))))))"

definition onErrorAfterClose :: "UnityAudioPlayer \<Rightarrow> UnityAudioPlayer" where
  "onErrorAfterClose p = p\<lparr> m_state := AUDIO_STATE_STOPPED \<rparr>"

subsection \<open>Delayed play\<close>

text \<open>
  \<open>playWithDelay\<close> hands the wait to a worker thread. The model runs the two threads on one
  clock, in milliseconds: a worker computes its timeout when it is created and sleeps; it
  wakes at its deadline, or earlier when \<open>m_delayCondition\<close> is notified, and then runs to
  its end before the caller's next step; a caller blocked in \<open>join\<close> resumes when the worker
  has returned. \<open>playCalls\<close> records when a worker called \<open>play\<close>; the device's answers
  to that \<open>play\<close> are parameters.
\<close>

record World =
  player :: UnityAudioPlayer
  device :: Device
  clock :: int
  playCalls :: "int list"

text \<open>A new \<open>std::thread\<close> running \<open>scheduleDelayedPlay\<close> enters
  \<open>wait_for(lock, milliseconds(static_cast<int>(m_delayTime * 1000)), pred)\<close>, which
  returns at once when the predicate \<open>m_delayCancelled\<close> already holds.\<close>

definition startWorker :: "World \<Rightarrow> ub + World" where
  "startWorker w =
     andThen (f2i (fmul (m_delayTime (player w)) (of_int32 1000))) (\<lambda>ms.
     Inr (w\<lparr> player := (player w)\<lparr> m_delayThread :=
            (if m_delayCancelled (player w) then Finished else Waiting (clock w + ms)) \<rparr> \<rparr>))"

text \<open>The worker wakes at time \<open>now\<close>. If the predicate holds, \<open>wait_for\<close> returns true
  and the worker returns; before the deadline it goes back to sleep; at the deadline
  \<open>wait_for\<close> returns the predicate, false, and the worker calls \<open>play\<close> unless
  \<open>m_delayCancelled\<close> is set.\<close>

definition wakeWorker :: "Result \<Rightarrow> Result \<Rightarrow> int \<Rightarrow> World \<Rightarrow> World" where
  "wakeWorker openAnswer startAnswer now w =
     (case m_delayThread (player w) of
        Waiting deadline \<Rightarrow>
          if m_delayCancelled (player w)
          then w\<lparr> player := (player w)\<lparr> m_delayThread := Finished \<rparr> \<rparr>
          else if now < deadline then w
          else (case play openAnswer startAnswer (player w, device w) of
            (p, dev) \<Rightarrow>
              w\<lparr> player := p\<lparr> m_delayThread := Finished \<rparr>, device := dev,
                 playCalls := playCalls w @ [now] \<rparr>)
      | _ \<Rightarrow> w)"

text \<open>Time passes until \<open>t\<close> while the caller does nothing.\<close>

definition elapse :: "Result \<Rightarrow> Result \<Rightarrow> int \<Rightarrow> World \<Rightarrow> World" where
  "elapse openAnswer startAnswer t w =
     (let w1 = (case m_delayThread (player w) of
                  Waiting deadline \<Rightarrow>
                    if deadline \<le> t then wakeWorker openAnswer startAnswer (max (clock w) deadline) w
                    else w
                | _ \<Rightarrow> w)
      in w1\<lparr> clock := max (clock w) t \<rparr>)"

text \<open>\<open>m_delayThread.join()\<close>: the caller waits for the worker to return. A notified
  worker wakes now, any other at its deadline.\<close>

definition joinWorker :: "Result \<Rightarrow> Result \<Rightarrow> bool \<Rightarrow> World \<Rightarrow> World" where
  "joinWorker openAnswer startAnswer notified w =
     (case m_delayThread (player w) of
        Waiting deadline \<Rightarrow>
          (let now = (if notified then clock w else max (clock w) deadline);
               w1 = wakeWorker openAnswer startAnswer now w
           in w1\<lparr> clock := now, player := (player w1)\<lparr> m_delayThread := NoThread \<rparr> \<rparr>)
      | Finished \<Rightarrow> w\<lparr> player := (player w)\<lparr> m_delayThread := NoThread \<rparr> \<rparr>
      | NoThread \<Rightarrow> w)"

definition playWithDelay :: "Result \<Rightarrow> Result \<Rightarrow> f32 \<Rightarrow> World \<Rightarrow> ub + World" where
  "playWithDelay openAnswer startAnswer delay w =
     (let w1 = w\<lparr> player := (player w)\<lparr> m_delayTime := delay, m_delayCancelled := False \<rparr> \<rparr>;
          w2 = (if m_delayThread (player w1) \<noteq> NoThread
                then joinWorker openAnswer startAnswer False w1 else w1)
      in startWorker w2)"

text \<open>The destructor: cancel and notify the worker, join it, then close the stream.\<close>

definition destroy :: "Result \<Rightarrow> Result \<Rightarrow> World \<Rightarrow> World" where
  "destroy openAnswer startAnswer w =
     (let w1 = w\<lparr> player := (player w)\<lparr> m_delayCancelled := True \<rparr> \<rparr>;
          w2 = (if m_delayThread (player w1) \<noteq> NoThread
                then joinWorker openAnswer startAnswer True w1 else w1)
      in case m_audioStream (player w2) of
           Some h \<Rightarrow> w2\<lparr> device := closeStream h (device w2),
                          player := (player w2)\<lparr> m_audioStream := None \<rparr> \<rparr>
         | None \<Rightarrow> w2)"

definition newWorld :: World where
  "newWorld = \<lparr> player = newPlayer, device = newDevice, clock = 0, playCalls = [] \<rparr>"

section \<open>Vocabulary of the properties\<close>

text \<open>A seek request, and a sequence of them applied in order.\<close>

datatype SeekCall = SetCurrentTime f32 | OffsetTime f32

fun seekCall :: "SeekCall \<Rightarrow> UnityAudioPlayer \<Rightarrow> UnityAudioPlayer" where
  "seekCall (SetCurrentTime t) p = setCurrentTime t p"
| "seekCall (OffsetTime d) p = offsetTime d p"

fun seekCalls :: "SeekCall list \<Rightarrow> UnityAudioPlayer \<Rightarrow> UnityAudioPlayer" where
  "seekCalls [] p = p"
| "seekCalls (c # cs) p = seekCalls cs (seekCall c p)"

text \<open>The position reported by \<open>getCurrentTime\<close> lies in \<open>[0, musicLength]\<close>.\<close>

definition inClip :: "UnityAudioPlayer \<Rightarrow> bool" where
  "inClip p = (fle (Fin 0) (getCurrentTime p) \<and> fle (getCurrentTime p) (getMusicLength p))"

text \<open>\<open>clamp(v, lo, hi)\<close> as the spec uses it: \<open>lo\<close> below \<open>lo\<close>, \<open>hi\<close> above \<open>hi\<close>,
  \<open>v\<close> in between.\<close>

definition clamp :: "f32 \<Rightarrow> f32 \<Rightarrow> f32 \<Rightarrow> f32" where
  "clamp v lo hi = (if flt v lo then lo else if flt hi v then hi else v)"

text \<open>A player with a one-second mono clip's metadata, as \<open>loadAudioData\<close> leaves it.\<close>

definition secondClip :: UnityAudioPlayer where
  "secondClip = newPlayer\<lparr> m_sampleRate := 48000, m_channels := 1, m_totalFrames := 48000 \<rparr>"


text \<open>The callback's \<open>frameTime\<close>: the duration of \<open>numFrames\<close> frames at the stream's
  sample rate.\<close>

definition frameTime :: "AudioStream \<Rightarrow> int \<Rightarrow> f32" where
  "frameTime audioStream numFrames =
     fdiv (of_int32 numFrames) (of_int32 (getSampleRate audioStream))"

text \<open>Source frame \<open>f\<close> as one output frame: output channel \<open>c\<close> carries source channel
  \<open>c mod m_channels\<close>, scaled by the volume.\<close>

definition renderFrame :: "UnityAudioPlayer \<Rightarrow> int \<Rightarrow> int \<Rightarrow> f32 list" where
  "renderFrame p outputChannels f =
     map (\<lambda>c. fmul (m_interleavedData p ! nat (f * m_channels p + c mod m_channels p))
                 (m_volume p))
       (ints outputChannels)"

text \<open>A loaded clip: at least one channel and one frame, \<open>m_totalFrames * m_channels\<close>
  samples, and a sample count that an \<open>int\<close> holds.\<close>

definition clipLoaded :: "UnityAudioPlayer \<Rightarrow> bool" where
  "clipLoaded p =
     (1 \<le> m_channels p \<and> 1 \<le> m_totalFrames p \<and>
      int (length (m_interleavedData p)) = m_totalFrames p * m_channels p \<and>
      m_totalFrames p * m_channels p < 2 ^ 31)"

text \<open>\<open>k\<close> callbacks of \<open>numFrames\<close> frames in a row, the output dropped.\<close>

fun callbacks :: "nat \<Rightarrow> AudioStream \<Rightarrow> int \<Rightarrow> UnityAudioPlayer \<Rightarrow> ub + UnityAudioPlayer" where
  "callbacks 0 s n p = Inr p"
| "callbacks (Suc k) s n p =
     andThen (onAudioReady s n p) (\<lambda>(r, out, p'). callbacks k s n p')"

text \<open>The position after \<open>k\<close> callbacks that each find \<open>n\<close> whole frames left in the
  clip, or \<open>None\<close> when one of them does not.\<close>

fun wholeCallbacks :: "nat \<Rightarrow> int \<Rightarrow> int \<Rightarrow> int \<Rightarrow> f32 \<Rightarrow> f32 \<Rightarrow> f32 option" where
  "wholeCallbacks 0 rate frames n ft pos = Some pos"
| "wholeCallbacks (Suc k) rate frames n ft pos =
     (case f2i (fmul pos (of_int32 rate)) of
        Inr cur \<Rightarrow>
          if 0 \<le> cur \<and> cur + n \<le> frames
          then wholeCallbacks k rate frames n ft (fadd pos ft) else None
      | Inl e \<Rightarrow> None)"

text \<open>The scenario of the spec: one second of mono audio at 48000 Hz (a ramp), volume 1,
  no loop, playing from position 0 into a mono stream.\<close>

definition ramp :: "f32 list" where
  "ramp = map (\<lambda>i. Fin (of_nat i / 65536)) [0..<48000]"

definition rampFile :: Env where
  "rampFile = \<lparr> g_assetManager = None,
     fileSystem = (\<lambda>name. Some \<lparr> getLength = 4, readBytes = ''RIFF'' \<rparr>),
     nyquistLoad = (\<lambda>name bytes. Decoded \<lparr> channelCount = 1, sampleRate = 48000,
                                          samples = ramp \<rparr>) \<rparr>"

definition oneSecond :: UnityAudioPlayer where
  "oneSecond = newPlayer\<lparr> m_state := AUDIO_STATE_PLAYING, m_clipPath := ''ramp.wav'',
     m_audioStream := Some 0,
     m_audioData := Some \<lparr> channelCount = 1, sampleRate = 48000, samples = [] \<rparr>,
     m_interleavedData := ramp, m_sampleRate := 48000, m_channels := 1,
     m_totalFrames := 48000 \<rparr>"

definition mono48k :: AudioStream where
  "mono48k = \<lparr> getChannelCount = 1, getSampleRate = 48000, getState = Started \<rparr>"

text \<open>A looping three-frame mono clip at half volume, played into a stereo stream.\<close>

definition threeFrames :: UnityAudioPlayer where
  "threeFrames = newPlayer\<lparr> m_state := AUDIO_STATE_PLAYING, m_audioStream := Some 0,
     m_volume := Fin (1 / 2), m_loop := True,
     m_interleavedData := [Fin (1 / 4), Fin (1 / 2), Fin (3 / 4)],
     m_sampleRate := 48000, m_channels := 1, m_totalFrames := 3 \<rparr>"

definition stereo48k :: AudioStream where
  "stereo48k = \<lparr> getChannelCount = 2, getSampleRate = 48000, getState = Started \<rparr>"


text \<open>The callback reads no sample outside the clip and takes no remainder by zero.\<close>

definition safe :: "ub + 'a \<Rightarrow> bool" where
  "safe r = (r \<noteq> Inl OutOfBounds \<and> r \<noteq> Inl DivByZero)"

text \<open>\<open>setClip\<close> fails: the source is missing, unreadable or empty, or the decoder
  throws.\<close>

definition loadFails :: "Env \<Rightarrow> string \<Rightarrow> bool" where
  "loadFails env filePath =
     (let fileData = (if take 7 filePath = ''assets/'' then loadAssetData env (drop 7 filePath)
                      else loadFileData env filePath)
      in fileData = [] \<or>
         (case nyquistLoad env filePath fileData of Throws a \<Rightarrow> True | Decoded a \<Rightarrow> False))"

text \<open>A platform without files, and a player that holds a clip loaded from
  \<open>first.wav\<close>.\<close>

definition noFiles :: Env where
  "noFiles = \<lparr> g_assetManager = None, fileSystem = (\<lambda>name. None),
     nyquistLoad = (\<lambda>name bytes. Throws \<lparr> channelCount = 0, sampleRate = 0, samples = [] \<rparr>) \<rparr>"

definition firstClip :: UnityAudioPlayer where
  "firstClip = newPlayer\<lparr> m_clipPath := ''first.wav'',
     m_interleavedData := [Fin (1 / 4), Fin (1 / 2), Fin (3 / 4)],
     m_sampleRate := 48000, m_channels := 1, m_totalFrames := 3 \<rparr>"


text \<open>A platform where every file holds four bytes that the decoder rejects.\<close>

definition corruptFile :: Env where
  "corruptFile = \<lparr> g_assetManager = None,
     fileSystem = (\<lambda>name. Some \<lparr> getLength = 4, readBytes = ''RIFF'' \<rparr>),
     nyquistLoad = (\<lambda>name bytes. Throws \<lparr> channelCount = 0, sampleRate = 0, samples = [] \<rparr>) \<rparr>"

text \<open>The delay scenario of the spec: \<open>playWithDelay(0.2)\<close>, 50 ms later
  \<open>playWithDelay(0.5)\<close>, then two seconds of waiting; the device accepts every stream.\<close>

definition delayScenario :: "ub + World" where
  "delayScenario =
     andThen (playWithDelay OK OK (round32 (2 / 10)) newWorld) (\<lambda>w1.
     andThen (playWithDelay OK OK (Fin (1 / 2)) (elapse OK OK 50 w1)) (\<lambda>w2.
     Inr (elapse OK OK 2000 w2)))"

text \<open>A platform whose decoder returns one sample for a two-channel clip.\<close>

definition oddSamples :: Env where
  "oddSamples = \<lparr> g_assetManager = None,
     fileSystem = (\<lambda>name. Some \<lparr> getLength = 4, readBytes = ''RIFF'' \<rparr>),
     nyquistLoad = (\<lambda>name bytes. Decoded \<lparr> channelCount = 2, sampleRate = 48000,
                                          samples = [Fin (1 / 2)] \<rparr>) \<rparr>"


section \<open>Properties\<close>

subsection \<open>Rounding\<close>

lemma pow2_pos: "0 < pow2 e"
  by (simp add: pow2_def)

lemma pow2_power_int: "pow2 e = power_int 2 e"
  by (simp add: pow2_def power_int_def field_simps)

lemma pow2_mono: "e \<le> e' \<Longrightarrow> pow2 e \<le> pow2 e'"
  by (simp add: pow2_power_int power_int_increasing)

lemma rne_nonneg: "0 \<le> x \<Longrightarrow> 0 \<le> rne x"
  by (auto simp: rne_def Let_def)

lemma rne_le: "of_int (rne x) \<le> x + 1"
  unfolding rne_def Let_def by (auto; linarith)

lemma rne_ge1: "1 \<le> x \<Longrightarrow> 1 \<le> rne x"
  unfolding rne_def Let_def by (auto; linarith)

lemma mag_nonneg: "0 \<le> a \<Longrightarrow> 0 \<le> rat_of_int (rne (a / pow2 k)) * pow2 k"
  by (simp add: rne_nonneg pow2_pos less_imp_le)

lemma round32_nonneg:
  "0 \<le> r \<Longrightarrow> round32 r = PInf \<or> (\<exists>m. round32 r = Fin m \<and> 0 \<le> m)"
  using mag_nonneg[of r] by (auto simp: round32_def Let_def)

lemma round32_nonpos:
  "r \<le> 0 \<Longrightarrow> round32 r = NInf \<or> (\<exists>m. round32 r = Fin m \<and> m \<le> 0)"
  using mag_nonneg[of "- r"] by (auto simp: round32_def Let_def)

lemma pow2_ilog2_le:
  assumes "1 \<le> a"
  shows "pow2 (ilog2 a) \<le> a"
proof -
  have f: "0 < \<lfloor>a\<rfloor>" using assms by linarith
  from bitlen_bounds[OF f] have b: "2 ^ nat (bitlen \<lfloor>a\<rfloor> - 1) \<le> \<lfloor>a\<rfloor>" by simp
  have "1 \<le> bitlen \<lfloor>a\<rfloor>" using f by (simp add: bitlen_alt_def)
  then have "pow2 (ilog2 a) = 2 ^ nat (bitlen \<lfloor>a\<rfloor> - 1)"
    using assms by (simp add: ilog2_def pow2_def)
  also have "\<dots> = of_int (2 ^ nat (bitlen \<lfloor>a\<rfloor> - 1))" by simp
  also have "\<dots> \<le> of_int \<lfloor>a\<rfloor>" using b by (simp only: of_int_le_iff)
  also have "\<dots> \<le> a" by simp
  finally show ?thesis .
qed

lemma ilog2_nonneg:
  assumes "1 \<le> a"
  shows "0 \<le> ilog2 a"
proof -
  have f: "0 < \<lfloor>a\<rfloor>" using assms by linarith
  then have "1 \<le> bitlen \<lfloor>a\<rfloor>" by (simp add: bitlen_alt_def)
  then show ?thesis using assms by (simp add: ilog2_def)
qed

lemma ilog2_le_31:
  assumes "0 < a" and "a \<le> 2 ^ 31"
  shows "ilog2 a \<le> 31"
proof (cases "1 \<le> a")
  case True
  have "\<lfloor>a\<rfloor> \<le> \<lfloor>2 ^ 31 :: rat\<rfloor>" using assms(2) by (rule floor_mono)
  then have "\<lfloor>a\<rfloor> \<le> 2147483648" by simp
  then have "nat \<lfloor>a\<rfloor> < 4294967296" by linarith
  then have "bitlen \<lfloor>a\<rfloor> \<le> 32"
    by (simp add: bitlen_def floorlog_le_iff)
  then show ?thesis using True by (simp add: ilog2_def)
next
  case False
  then show ?thesis using bitlen_nonneg[of "\<lceil>1 / a\<rceil> - 1"] by (simp add: ilog2_def)
qed

text \<open>A number that is at least 1 does not round to zero.\<close>

lemma round32_pos:
  assumes "1 \<le> r"
  shows "round32 r = PInf \<or> (\<exists>m. round32 r = Fin m \<and> 0 < m)"
proof -
  let ?q = "pow2 (max (ilog2 r) (- 126) - 23)"
  have e: "max (ilog2 r) (- 126) = ilog2 r" using ilog2_nonneg[OF assms] by simp
  have "?q \<le> pow2 (ilog2 r)" unfolding e by (rule pow2_mono) simp
  also have "\<dots> \<le> r" by (rule pow2_ilog2_le[OF assms])
  finally have "1 \<le> r / ?q"
    using pow2_pos[of "max (ilog2 r) (- 126) - 23"] by (simp add: le_divide_eq)
  then have "1 \<le> rne (r / ?q)" by (rule rne_ge1)
  then have "0 < rat_of_int (rne (r / ?q)) * ?q"
    using pow2_pos[of "max (ilog2 r) (- 126) - 23"] by simp
  then show ?thesis using assms by (auto simp: round32_def Let_def)
qed

text \<open>Every \<open>int\<close> converts to a finite float.\<close>

lemma round32_finite:
  assumes "\<bar>r\<bar> \<le> 2 ^ 31"
  shows "\<exists>m. round32 r = Fin m"
proof (cases "r = 0")
  case True
  then show ?thesis by (simp add: round32_def)
next
  case False
  let ?a = "\<bar>r\<bar>"
  let ?k = "max (ilog2 ?a) (- 126) - 23"
  have a: "0 < ?a" using False by simp
  have "?k \<le> 8" using ilog2_le_31[OF a assms] by simp
  then have q: "pow2 ?k \<le> pow2 8" by (rule pow2_mono)
  have "rat_of_int (rne (?a / pow2 ?k)) * pow2 ?k \<le> (?a / pow2 ?k + 1) * pow2 ?k"
    using rne_le[of "?a / pow2 ?k"] pow2_pos[of ?k] by (simp only: mult_le_cancel_right) simp
  also have "\<dots> = ?a + pow2 ?k" using pow2_pos[of ?k] by (simp add: field_simps)
  also have "\<dots> \<le> 2 ^ 31 + pow2 8" using assms q by simp
  also have "\<dots> < pow2 128" by (simp add: pow2_def)
  finally have "\<not> pow2 128 \<le> rat_of_int (rne (?a / pow2 ?k)) * pow2 ?k" by simp
  then show ?thesis using False by (simp add: round32_def Let_def)
qed

lemma of_int32_nonneg:
  "0 \<le> i \<Longrightarrow> of_int32 i = PInf \<or> (\<exists>m. of_int32 i = Fin m \<and> 0 \<le> m)"
  unfolding of_int32_def by (rule round32_nonneg) simp

lemma of_int32_pos:
  "1 \<le> i \<Longrightarrow> of_int32 i = PInf \<or> (\<exists>m. of_int32 i = Fin m \<and> 0 < m)"
  unfolding of_int32_def by (rule round32_pos) simp

lemma of_int32_finite:
  assumes "- (2 ^ 31) \<le> i" and "i < 2 ^ 31"
  shows "\<exists>m. of_int32 i = Fin m"
proof -
  have "\<bar>i\<bar> \<le> 2 ^ 31" using assms by simp
  then have "rat_of_int \<bar>i\<bar> \<le> rat_of_int (2 ^ 31)" by (simp only: of_int_le_iff)
  then have "\<bar>rat_of_int i\<bar> \<le> 2 ^ 31" by simp
  then show ?thesis unfolding of_int32_def by (rule round32_finite)
qed

subsection \<open>Seeking\<close>

text \<open>The length of a clip with a positive sample rate is a number, and not negative.\<close>

lemma getMusicLength_nonneg:
  assumes "1 \<le> m_sampleRate p" and "0 \<le> m_totalFrames p" and "m_totalFrames p < 2 ^ 31"
  shows "fle (Fin 0) (getMusicLength p)"
proof -
  obtain a where a: "of_int32 (m_totalFrames p) = Fin a" "0 \<le> a"
    using of_int32_finite[of "m_totalFrames p"] of_int32_nonneg[of "m_totalFrames p"] assms
    by auto
  from of_int32_pos[OF assms(1)] show ?thesis
  proof
    assume "of_int32 (m_sampleRate p) = PInf"
    then show ?thesis by (simp add: getMusicLength_def a)
  next
    assume "\<exists>m. of_int32 (m_sampleRate p) = Fin m \<and> 0 < m"
    then obtain b where b: "of_int32 (m_sampleRate p) = Fin b" "0 < b" by auto
    have "0 \<le> a / b" using a b by simp
    from round32_nonneg[OF this] show ?thesis
      using b by (auto simp: getMusicLength_def a)
  qed
qed

lemma clamp_range:
  assumes "fle (Fin 0) len"
  shows "fle (Fin 0) (std_max (Fin 0) (std_min x len)) \<and>
         fle (std_max (Fin 0) (std_min x len)) len"
  using assms by (cases x; cases len) (auto simp: std_max_def std_min_def)

lemma seekCall_clip:
  "m_sampleRate (seekCall c p) = m_sampleRate p \<and>
   m_totalFrames (seekCall c p) = m_totalFrames p"
  by (cases c) (simp_all add: setCurrentTime_def offsetTime_def)

lemma seekCall_inClip:
  assumes "fle (Fin 0) (getMusicLength p)"
  shows "inClip (seekCall c p)"
proof -
  have len: "getMusicLength (seekCall c p) = getMusicLength p"
    by (simp add: getMusicLength_def seekCall_clip)
  obtain x where "m_currentTime (seekCall c p) = std_max (Fin 0) (std_min x (getMusicLength p))"
    by (cases c) (simp_all add: setCurrentTime_def offsetTime_def)
  then show ?thesis
    using clamp_range[OF assms, of x] by (simp add: inClip_def len getCurrentTime_def)
qed

lemma seekCalls_inClip:
  assumes "fle (Fin 0) (getMusicLength p)" and "cs = [] \<Longrightarrow> inClip p"
  shows "inClip (seekCalls cs p)"
  using assms
proof (induction cs arbitrary: p)
  case Nil
  then show ?case by simp
next
  case (Cons c cs)
  have len: "getMusicLength (seekCall c p) = getMusicLength p"
    by (simp add: getMusicLength_def seekCall_clip)
  have "inClip (seekCalls cs (seekCall c p))"
  proof (rule Cons.IH)
    show "fle (Fin 0) (getMusicLength (seekCall c p))" using Cons.prems(1) len by simp
    show "inClip (seekCall c p)" using Cons.prems(1) by (rule seekCall_inClip)
  qed
  then show ?case by simp
qed

text \<open>
  Claim C7. For a player whose loaded clip has a positive sample rate, after any sequence of
  \<open>setCurrentTime\<close> and \<open>offsetTime\<close> calls with arbitrary float arguments (NaN and the
  infinities included) \<open>getCurrentTime\<close> returns a value in \<open>[0, musicLength]\<close>. After at
  least one call this holds from any position; for the empty sequence the position is the one
  before, which is taken to be inside the clip.
\<close>

theorem seekCalls_within_clip:
  assumes "1 \<le> m_sampleRate p" and "0 \<le> m_totalFrames p" and "m_totalFrames p < 2 ^ 31"
    and "cs \<noteq> [] \<or> inClip p"
  shows "fle (Fin 0) (getCurrentTime (seekCalls cs p)) \<and>
         fle (getCurrentTime (seekCalls cs p)) (getMusicLength (seekCalls cs p))"
proof -
  have "inClip (seekCalls cs p)"
    using seekCalls_inClip[OF getMusicLength_nonneg[OF assms(1-3)], of cs] assms(4) by auto
  then show ?thesis by (simp add: inClip_def)
qed

theorem seekCalls_within_clip_witness:
  "fle (Fin 0) (getCurrentTime (seekCalls
      [SetCurrentTime (Fin 5), OffsetTime (Fin (- 1 / 4)), OffsetTime NaN,
       SetCurrentTime NInf, OffsetTime (Fin (3 / 8))] secondClip)) \<and>
   fle (getCurrentTime (seekCalls
      [SetCurrentTime (Fin 5), OffsetTime (Fin (- 1 / 4)), OffsetTime NaN,
       SetCurrentTime NInf, OffsetTime (Fin (3 / 8))] secondClip))
     (getMusicLength (seekCalls
      [SetCurrentTime (Fin 5), OffsetTime (Fin (- 1 / 4)), OffsetTime NaN,
       SetCurrentTime NInf, OffsetTime (Fin (3 / 8))] secondClip))"
proof -
  have 1: "1 \<le> m_sampleRate secondClip" by (simp add: secondClip_def newPlayer_def)
  have 2: "0 \<le> m_totalFrames secondClip" by (simp add: secondClip_def newPlayer_def)
  have 3: "m_totalFrames secondClip < 2 ^ 31" by (simp add: secondClip_def newPlayer_def)
  show ?thesis by (rule seekCalls_within_clip[OF 1 2 3]) simp
qed

subsection \<open>Volume\<close>

text \<open>
  \<open>setVolume\<close> stores \<open>std::max(0.0f, std::min(1.0f, volume))\<close>. Every comparison with NaN
  is false, so \<open>std::min(1.0f, NaN)\<close> is 1 and the stored volume is 1, whereas
  \<open>clamp(NaN, 0, 1)\<close> is NaN.
\<close>

theorem setVolume_NaN_is_not_clamp:
  "getVolume (setVolume NaN newPlayer) = Fin 1 \<and>
   clamp NaN (Fin 0) (Fin 1) = NaN \<and>
   getVolume (setVolume NaN newPlayer) \<noteq> clamp NaN (Fin 0) (Fin 1)"
  by (simp add: getVolume_def setVolume_def clamp_def std_max_def std_min_def)

text \<open>
  Claim C8, amended. For every float \<open>v\<close> other than NaN (a number or an infinity),
  \<open>setVolume(v)\<close> then \<open>getVolume()\<close> returns exactly \<open>clamp(v, 0, 1)\<close>;
  \<open>setVolume(NaN)\<close> then \<open>getVolume()\<close> returns 1. \<open>setVolume\<close> changes no field but the
  volume.
\<close>

theorem setVolume_getVolume:
  "getVolume (setVolume v p) = (if v = NaN then Fin 1 else clamp v (Fin 0) (Fin 1)) \<and>
   setVolume v p = p\<lparr> m_volume := getVolume (setVolume v p) \<rparr>"
  by (cases v) (auto simp: getVolume_def setVolume_def clamp_def std_max_def std_min_def)

theorem setVolume_getVolume_witness:
  "getVolume (setVolume (Fin (5 / 2)) newPlayer) = Fin 1 \<and>
   getVolume (setVolume (Fin (1 / 4)) newPlayer) = Fin (1 / 4) \<and>
   getVolume (setVolume NInf newPlayer) = Fin 0 \<and>
   getVolume (setVolume PInf newPlayer) = Fin 1 \<and>
   getVolume (setVolume NaN newPlayer) = Fin 1"
  using setVolume_getVolume[of "Fin (5 / 2)" newPlayer]
    setVolume_getVolume[of "Fin (1 / 4)" newPlayer]
    setVolume_getVolume[of NInf newPlayer]
    setVolume_getVolume[of PInf newPlayer]
    setVolume_getVolume[of NaN newPlayer]
  by (simp add: clamp_def)

subsection \<open>Stopping\<close>

text \<open>
  Claim C10. \<open>stop()\<close> on a player in the Idle state that holds no stream changes nothing:
  the state stays Idle, position, volume, loop flag and clip are as before (the position is
  not reset to 0), and the device is not touched.
\<close>

theorem stop_without_stream:
  assumes "m_state p = AUDIO_STATE_IDLE" and "m_audioStream p = None"
  shows "stop (p, dev) = (p, dev)"
  using assms by (simp add: stop_def)

theorem stop_without_stream_witness:
  "stop (setCurrentTime (Fin (1 / 2)) secondClip, newDevice) =
     (setCurrentTime (Fin (1 / 2)) secondClip, newDevice) \<and>
   m_currentTime (fst (stop (setCurrentTime (Fin (1 / 2)) secondClip, newDevice))) = Fin (1 / 2)"
proof -
  have 1: "m_state (setCurrentTime (Fin (1 / 2)) secondClip) = AUDIO_STATE_IDLE"
    by (simp add: setCurrentTime_def secondClip_def newPlayer_def)
  have 2: "m_audioStream (setCurrentTime (Fin (1 / 2)) secondClip) = None"
    by (simp add: setCurrentTime_def secondClip_def newPlayer_def)
  have 3: "m_currentTime (setCurrentTime (Fin (1 / 2)) secondClip) = Fin (1 / 2)"
    by code_simp
  show ?thesis using stop_without_stream[OF 1 2, of newDevice] 3 by simp
qed

subsection \<open>The audio callback\<close>

lemma andThen_Inr [simp]: "andThen (Inr x) f = f x"
  by (simp add: andThen_def)

lemma andThen_Inl [simp]: "andThen (Inl e) f = Inl e"
  by (simp add: andThen_def)

lemma set_ints [simp]: "i \<in> set (ints n) \<longleftrightarrow> 0 \<le> i \<and> i < n"
proof
  assume "i \<in> set (ints n)"
  then show "0 \<le> i \<and> i < n" by (auto simp: ints_def)
next
  assume a: "0 \<le> i \<and> i < n"
  then have "nat i \<in> {0..<nat n}" by auto
  then have "int (nat i) \<in> int ` {0..<nat n}" by (rule imageI)
  then show "i \<in> set (ints n)" using a by (simp add: ints_def)
qed

lemma length_ints [simp]: "length (ints n) = nat n"
  by (simp add: ints_def)

lemma ints_nonpos [simp]: "n \<le> 0 \<Longrightarrow> ints n = []"
  by (simp add: ints_def)

lemma collect_Inr:
  "(\<And>i. i \<in> set xs \<Longrightarrow> f i = Inr (g i)) \<Longrightarrow> collect f xs = Inr (concat (map g xs))"
  by (induction xs) simp_all

lemma i32_Inr: "- (2 ^ 31) \<le> i \<Longrightarrow> i < 2 ^ 31 \<Longrightarrow> i32 i = Inr i"
  by (simp add: i32_def)

lemma c_rem_nonneg: "0 \<le> a \<Longrightarrow> 1 \<le> b \<Longrightarrow> c_rem a b = Inr (a mod b)"
  by (cases "a = 0") (simp_all add: c_rem_def)

lemma frame_index_bound:
  assumes "0 \<le> f" "f < t" "1 \<le> ch" "0 \<le> c"
  shows "0 \<le> f * ch + c mod ch \<and> f * ch + c mod ch < t * (ch :: int)"
proof -
  have "(f + 1) * ch \<le> t * ch" using assms by (intro mult_right_mono) auto
  moreover have "c mod ch < ch" "0 \<le> c mod ch" using assms by auto
  moreover have "0 \<le> f * ch" using assms by simp
  ultimately show ?thesis by (simp add: algebra_simps)
qed

lemma copyFrame_ok:
  assumes "clipLoaded p" "0 \<le> f" "f < m_totalFrames p"
  shows "copyFrame p outputChannels (f * m_channels p) = Inr (renderFrame p outputChannels f)"
proof -
  have step: "andThen (c_rem c (m_channels p)) (\<lambda>srcChannel.
       andThen (i32 (f * m_channels p + srcChannel)) (\<lambda>k.
       andThen (vec_at (m_interleavedData p) k) (\<lambda>x.
       Inr [fmul x (m_volume p)]))) =
     Inr [fmul (m_interleavedData p ! nat (f * m_channels p + c mod m_channels p)) (m_volume p)]"
    if "c \<in> set (ints outputChannels)" for c
  proof -
    have c: "0 \<le> c" using that by simp
    have ch: "1 \<le> m_channels p" using assms(1) by (simp add: clipLoaded_def)
    from frame_index_bound[OF assms(2,3) ch c]
    have b: "0 \<le> f * m_channels p + c mod m_channels p"
      "f * m_channels p + c mod m_channels p < m_totalFrames p * m_channels p" by auto
    have b2: "f * m_channels p + c mod m_channels p < 2 ^ 31"
      using b(2) assms(1) by (simp add: clipLoaded_def)
    have b3: "f * m_channels p + c mod m_channels p < int (length (m_interleavedData p))"
      using b(2) assms(1) by (simp add: clipLoaded_def)
    show ?thesis
      using b(1) b2 b3 by (simp add: c_rem_nonneg[OF c ch] i32_def vec_at_def)
  qed
  have "copyFrame p outputChannels (f * m_channels p) =
      Inr (concat (map (\<lambda>c. [fmul (m_interleavedData p ! nat (f * m_channels p + c mod m_channels p)) (m_volume p)]) (ints outputChannels)))"
    unfolding copyFrame_def by (rule collect_Inr) (rule step)
  then show ?thesis by (simp add: renderFrame_def concat_map_singleton)
qed

lemma clipLoaded_frames_bound:
  assumes "clipLoaded p" "0 \<le> f" "f < m_totalFrames p"
  shows "f < 2 ^ 31" "0 \<le> f * m_channels p" "f * m_channels p < 2 ^ 31"
proof -
  have ch: "1 \<le> m_channels p" using assms(1) by (simp add: clipLoaded_def)
  from frame_index_bound[OF assms(2,3) ch, of 0]
  have b: "0 \<le> f * m_channels p" "f * m_channels p < m_totalFrames p * m_channels p" by auto
  show "0 \<le> f * m_channels p" by (rule b(1))
  have c: "m_totalFrames p * m_channels p < 2 ^ 31" using assms(1) by (simp add: clipLoaded_def)
  from b(2) c show d: "f * m_channels p < 2 ^ 31" by (rule less_trans)
  have "f * 1 \<le> f * m_channels p" using assms(2) ch by (intro mult_left_mono) auto
  then show "f < 2 ^ 31" using d by simp
qed

lemma frames_loop:
  assumes "clipLoaded p" "0 \<le> cur" "cur + k \<le> m_totalFrames p"
  shows "collect (\<lambda>i.
           andThen (i32 (cur + i)) (\<lambda>f.
           andThen (i32 (f * m_channels p)) (\<lambda>srcIndex.
           copyFrame p oc srcIndex)))
         (ints k) =
       Inr (concat (map (\<lambda>i. renderFrame p oc (cur + i)) (ints k)))"
proof (rule collect_Inr)
  fix i assume "i \<in> set (ints k)"
  then have i: "0 \<le> cur + i" "cur + i < m_totalFrames p" using assms by auto
  from clipLoaded_frames_bound[OF assms(1) i]
  show "andThen (i32 (cur + i)) (\<lambda>f. andThen (i32 (f * m_channels p)) (copyFrame p oc)) =
        Inr (renderFrame p oc (cur + i))"
    using i(1) by (simp add: i32_def copyFrame_ok[OF assms(1) i])
qed


lemma length_renderFrame [simp]: "length (renderFrame p oc f) = nat oc"
  by (simp add: renderFrame_def)

lemma length_frames [simp]:
  "length (concat (map (\<lambda>i. renderFrame p oc (g i)) xs)) = length xs * nat oc"
  by (induction xs) simp_all

lemma written_ok:
  assumes "0 \<le> a" "0 \<le> b" "a + b = n" "0 \<le> oc" "length xs = nat a * nat oc" "length ys = nat b * nat oc"
  shows "written n oc (xs @ ys) = Inr (xs @ ys)"
proof -
  have "int (length (xs @ ys)) = a * oc + b * oc"
    using assms by (simp add: nat_mult_distrib)
  also have "\<dots> = n * oc" unfolding assms(3)[symmetric] by (simp add: algebra_simps)
  finally show ?thesis by (simp add: written_def)
qed

lemma clipLoaded_product:
  assumes "clipLoaded p"
  shows "1 \<le> m_totalFrames p * m_channels p" "m_totalFrames p \<le> m_totalFrames p * m_channels p"
proof -
  have t: "1 \<le> m_totalFrames p" and c: "1 \<le> m_channels p"
    using assms by (simp_all add: clipLoaded_def)
  have "m_totalFrames p * 1 \<le> m_totalFrames p * m_channels p"
    using t c by (intro mult_left_mono) auto
  then show "m_totalFrames p \<le> m_totalFrames p * m_channels p" by simp
  then show "1 \<le> m_totalFrames p * m_channels p" using t by linarith
qed

lemma clipLoaded_nonempty:
  assumes "clipLoaded p"
  shows "m_interleavedData p \<noteq> []"
proof
  assume "m_interleavedData p = []"
  then have "int (length (m_interleavedData p)) = 0" by simp
  then have "m_totalFrames p * m_channels p = 0" using assms by (simp only: clipLoaded_def)
  then show False using clipLoaded_product(1)[OF assms] by (simp only:)
qed

lemma clipLoaded_totalFrames:
  assumes "clipLoaded p"
  shows "m_totalFrames p < 2 ^ 31"
proof -
  have "m_totalFrames p * m_channels p < 2 ^ 31" using assms by (simp add: clipLoaded_def)
  with clipLoaded_product(2)[OF assms] show ?thesis by (rule le_less_trans)
qed

lemma copied_eq:
  assumes "clipLoaded p" "0 \<le> cur" "cur + k \<le> m_totalFrames p"
  shows "(if 0 < k
          then collect (\<lambda>i.
                 andThen (i32 (cur + i)) (\<lambda>f.
                 andThen (i32 (f * m_channels p)) (\<lambda>srcIndex.
                 copyFrame p oc srcIndex)))
               (ints k)
          else Inr []) =
         Inr (concat (map (\<lambda>i. renderFrame p oc (cur + i)) (ints k)))"
  using frames_loop[OF assms, of oc] by (cases "0 < k") simp_all

lemma onAudioReady_full:
  assumes "m_state p = AUDIO_STATE_PLAYING" "clipLoaded p"
    and "1 \<le> getChannelCount s" "n * getChannelCount s < 2 ^ 31"
    and "currentFrame p = Inr cur" "0 \<le> cur" "0 \<le> n" "cur + n \<le> m_totalFrames p"
  shows "onAudioReady s n p =
     Inr (Continue,
          concat (map (\<lambda>i. renderFrame p (getChannelCount s) (cur + i)) (ints n)),
          p\<lparr> m_currentTime := fadd (m_currentTime p) (frameTime s n) \<rparr>)"
proof -
  have r: "i32 (m_totalFrames p - cur) = Inr (m_totalFrames p - cur)"
    using clipLoaded_totalFrames[OF assms(2)] assms(6,7,8) by (simp add: i32_def)
  have m: "min n (m_totalFrames p - cur) = n" using assms(8) by simp
  have w: "written n (getChannelCount s)
             (concat (map (\<lambda>i. renderFrame p (getChannelCount s) (cur + i)) (ints n))) =
           Inr (concat (map (\<lambda>i. renderFrame p (getChannelCount s) (cur + i)) (ints n)))"
    using written_ok[of n 0 n "getChannelCount s" _ "[]"] assms(3,7) by simp
  show ?thesis
    unfolding onAudioReady_def Let_def
    apply (simp only: assms(5) andThen_Inr r m copied_eq[OF assms(2,6,8)] w)
    apply (simp add: assms(1) clipLoaded_nonempty[OF assms(2)] frameTime_def)
    done
qed



subsection \<open>Evaluating single-precision arithmetic\<close>

lemma bitlen_numeral: "bitlen (numeral k) = bitlen (numeral k div 2) + 1"
  by (subst compute_bitlen) simp

lemma bitlen_one: "bitlen 1 = 1"
  by (subst compute_bitlen) simp

lemma floor_rat_numeral: "\<lfloor>numeral a / numeral b :: rat\<rfloor> = numeral a div numeral b"
  by (metis floor_divide_of_int_eq of_int_numeral)

lemma floor_rat_one: "\<lfloor>1 / numeral b :: rat\<rfloor> = 1 div numeral b"
  by (metis floor_divide_of_int_eq of_int_numeral of_int_1)

lemma ceiling_rat_numeral: "\<lceil>numeral a / numeral b :: rat\<rceil> = - (- numeral a div numeral b)"
  by (metis ceiling_def floor_divide_of_int_eq minus_divide_left of_int_minus of_int_numeral)

lemma Let_frac: "Let (numeral a / numeral b :: rat) f = f (numeral a / numeral b)"
  by (simp add: Let_def)

lemma Let_inv: "Let (1 / numeral b :: rat) f = f (1 / numeral b)"
  by (simp add: Let_def)

lemmas f32_eval = round32_def ilog2_def rne_def pow2_def Let_frac Let_inv bitlen_numeral bitlen_one
  of_int32_def f2i_def floor_rat_numeral floor_rat_one ceiling_rat_numeral

lemma ints_step:
  assumes "0 < n"
  shows "ints n = ints (n - 1) @ [n - 1]"
proof -
  have "nat n = Suc (nat (n - 1))" using assms by arith
  then show ?thesis using assms by (simp add: ints_def)
qed

lemma ints_numeral: "ints (numeral k) = ints (numeral k - 1) @ [numeral k - 1]"
  by (rule ints_step) simp

lemma ints_one: "ints 1 = [0]"
  by (simp add: ints_def)

lemma ints_zero: "ints 0 = []"
  by (simp add: ints_def)

lemma wholeCallbacks_numeral:
  "wholeCallbacks (numeral k) rate frames n ft pos =
     (case f2i (fmul pos (of_int32 rate)) of
        Inr cur \<Rightarrow>
          if 0 \<le> cur \<and> cur + n \<le> frames
          then wholeCallbacks (pred_numeral k) rate frames n ft (fadd pos ft) else None
      | Inl e \<Rightarrow> None)"
  by (simp add: numeral_eq_Suc)







lemma callbacks_whole:
  assumes "wholeCallbacks k (m_sampleRate p) (m_totalFrames p) n (frameTime s n) (m_currentTime p) = Some pos"
    and "m_state p = AUDIO_STATE_PLAYING" "clipLoaded p"
    and "1 \<le> getChannelCount s" "n * getChannelCount s < 2 ^ 31" "0 \<le> n"
  shows "callbacks k s n p = Inr (p\<lparr> m_currentTime := pos \<rparr>)"
  using assms
proof (induction k arbitrary: p)
  case 0
  then show ?case by simp
next
  case (Suc k)
  from Suc.prems(1) obtain cur where cur: "currentFrame p = Inr cur" "0 \<le> cur" "cur + n \<le> m_totalFrames p"
    and rest: "wholeCallbacks k (m_sampleRate p) (m_totalFrames p) n (frameTime s n)
                 (fadd (m_currentTime p) (frameTime s n)) = Some pos"
    by (auto simp: currentFrame_def split: sum.splits if_splits)
  let ?p1 = "p\<lparr> m_currentTime := fadd (m_currentTime p) (frameTime s n) \<rparr>"
  have step: "onAudioReady s n p =
     Inr (Continue, concat (map (\<lambda>i. renderFrame p (getChannelCount s) (cur + i)) (ints n)), ?p1)"
    by (rule onAudioReady_full[OF Suc.prems(2,3,4,5) cur(1,2) Suc.prems(6) cur(3)])
  have "callbacks k s n ?p1 = Inr (?p1\<lparr> m_currentTime := pos \<rparr>)"
  proof (rule Suc.IH)
    show "wholeCallbacks k (m_sampleRate ?p1) (m_totalFrames ?p1) n (frameTime s n) (m_currentTime ?p1) = Some pos"
      using rest by simp
    show "m_state ?p1 = AUDIO_STATE_PLAYING" using Suc.prems(2) by simp
    show "clipLoaded ?p1" using Suc.prems(3) by (simp add: clipLoaded_def)
  qed (rule Suc.prems)+
  then show ?case by (simp add: step)
qed



lemma length_ramp: "length ramp = 48000"
  by (simp add: ramp_def)

lemma clipLoaded_oneSecond: "clipLoaded (oneSecond\<lparr> m_currentTime := x \<rparr>)"
  by (simp add: clipLoaded_def oneSecond_def newPlayer_def length_ramp)

lemma frameTime_512: "frameTime mono48k 512 = Fin (5726623 / 536870912)"
  by (simp add: frameTime_def mono48k_def f32_eval)

text \<open>The scenario's player is what \<open>setClip\<close> and \<open>play\<close> make of a new player.\<close>

lemma oneSecond_reached:
  "andThen (setClip rampFile ''ramp.wav'' newPlayer)
     (\<lambda>(loaded, p). Inr (loaded, fst (play OK OK (p, newDevice)))) =
   Inr (True, oneSecond)"
  by (simp add: setClip_def loadAudioData_def loadFileData_def rampFile_def newPlayer_def
      to_size_t_def to_int_def Let_def length_ramp play_def openStream_def requestStart_def
      newDevice_def oneSecond_def)




subsection \<open>Callbacks past the end of the clip\<close>




subsection \<open>Reads of the sample buffer\<close>

lemma safe_Inr [simp]: "safe (Inr x)"
  by (simp add: safe_def)

lemma safe_andThen:
  assumes "safe m" and "\<And>x. m = Inr x \<Longrightarrow> safe (f x)"
  shows "safe (andThen m f)"
  using assms by (cases m) (auto simp: safe_def)

lemma safe_collect:
  assumes "\<And>i. i \<in> set xs \<Longrightarrow> safe (f i)"
  shows "safe (collect f xs)"
  using assms
proof (induction xs)
  case Nil
  then show ?case by simp
next
  case (Cons a xs)
  show ?case
    unfolding collect.simps
    by (intro safe_andThen Cons.prems Cons.IH) simp_all
qed

lemma safe_i32 [simp]: "safe (i32 i)"
  by (simp add: safe_def i32_def)

lemma i32_InrD: "i32 i = Inr j \<Longrightarrow> j = i"
  by (simp add: i32_def split: if_splits)

lemma safe_f2i [simp]: "safe (f2i x)"
  by (cases x) (simp_all add: safe_def f2i_def Let_def)

lemma safe_written [simp]: "safe (written n oc out)"
  by (simp add: safe_def written_def)

lemma safe_generateSilence [simp]: "safe (generateSilence n oc)"
  unfolding generateSilence_def by (intro safe_andThen) simp_all

lemma safe_copyFrame:
  assumes "1 \<le> m_channels p" and "0 \<le> f" and "f < m_totalFrames p"
    and "int (length (m_interleavedData p)) = m_totalFrames p * m_channels p"
  shows "safe (copyFrame p oc (f * m_channels p))"
  unfolding copyFrame_def
proof (rule safe_collect)
  fix c assume "c \<in> set (ints oc)"
  then have c: "0 \<le> c" by simp
  from frame_index_bound[OF assms(2,3,1) c]
  have b: "0 \<le> f * m_channels p + c mod m_channels p"
    "f * m_channels p + c mod m_channels p < int (length (m_interleavedData p))"
    using assms(4) by auto
  have v: "safe (vec_at (m_interleavedData p) (f * m_channels p + c mod m_channels p))"
    using b by (simp add: safe_def vec_at_def)
  show "safe (andThen (c_rem c (m_channels p)) (\<lambda>srcChannel.
          andThen (i32 (f * m_channels p + srcChannel)) (\<lambda>k.
          andThen (vec_at (m_interleavedData p) k) (\<lambda>x. Inr [fmul x (m_volume p)]))))"
    unfolding c_rem_nonneg[OF c assms(1)] andThen_Inr
  proof (intro safe_andThen)
    fix k assume "i32 (f * m_channels p + c mod m_channels p) = Inr k"
    then have "k = f * m_channels p + c mod m_channels p" by (rule i32_InrD)
    then show "safe (vec_at (m_interleavedData p) k)" using v by simp
  qed simp_all
qed

lemma f2i_nonneg: "f2i (Fin m) = Inr cur \<Longrightarrow> 0 \<le> m \<Longrightarrow> 0 \<le> cur"
  by (auto simp: f2i_def Let_def split: if_splits)

lemma f2i_fmul_nonneg:
  assumes "f2i (fmul (Fin a) y) = Inr cur" and "0 \<le> a" and "\<And>b. y = Fin b \<Longrightarrow> 0 \<le> b \<or> a = 0"
  shows "0 \<le> cur"
proof (cases y)
  case (Fin b)
  have "0 \<le> a * b" using assms(2) assms(3)[OF Fin] by auto
  from round32_nonneg[OF this] show ?thesis
  proof
    assume "round32 (a * b) = PInf"
    then show ?thesis using assms(1) Fin by (simp add: f2i_def)
  next
    assume "\<exists>m. round32 (a * b) = Fin m \<and> 0 \<le> m"
    then obtain m where "round32 (a * b) = Fin m" "0 \<le> m" by auto
    then show ?thesis using assms(1) Fin f2i_nonneg[of m cur] by simp
  qed
qed (use assms(1) in \<open>auto simp: f2i_def split: if_splits\<close>)

lemma currentFrame_nonneg:
  assumes "fle (Fin 0) (m_currentTime p)" and "fle (m_currentTime p) (getMusicLength p)"
    and "0 \<le> m_totalFrames p" and "currentFrame p = Inr cur"
  shows "0 \<le> cur"
proof (cases "m_currentTime p")
  case (Fin a)
  have a: "0 \<le> a" using assms(1) Fin by simp
  show ?thesis
  proof (rule f2i_fmul_nonneg[OF _ a])
    show "f2i (fmul (Fin a) (of_int32 (m_sampleRate p))) = Inr cur"
      using assms(4) Fin by (simp add: currentFrame_def)
    fix b assume b: "of_int32 (m_sampleRate p) = Fin b"
    show "0 \<le> b \<or> a = 0"
    proof (cases "0 \<le> b")
      case False
      then have neg: "b < 0" by simp
      from of_int32_nonneg[OF assms(3)] have "a \<le> 0"
      proof
        assume "of_int32 (m_totalFrames p) = PInf"
        then show ?thesis using assms(2) Fin b neg by (simp add: getMusicLength_def)
      next
        assume "\<exists>m. of_int32 (m_totalFrames p) = Fin m \<and> 0 \<le> m"
        then obtain t where t: "of_int32 (m_totalFrames p) = Fin t" "0 \<le> t" by auto
        have "t / b \<le> 0" using t(2) neg by (simp add: divide_nonneg_neg)
        from round32_nonpos[OF this] show ?thesis
          using assms(2) Fin b neg t(1) by (auto simp: getMusicLength_def)
      qed
      then show ?thesis using a by simp
    qed simp
  qed
next
  case PInf
  then show ?thesis
    using assms(4)
    by (cases "of_int32 (m_sampleRate p)") (auto simp: currentFrame_def f2i_def split: if_splits)
qed (use assms(1) in auto)

lemma safe_frames:
  assumes "1 \<le> m_channels p" and "0 \<le> cur" and "k \<le> m_totalFrames p - cur"
    and "int (length (m_interleavedData p)) = m_totalFrames p * m_channels p"
  shows "safe (collect (\<lambda>i.
           andThen (i32 (cur + i)) (\<lambda>f.
           andThen (i32 (f * m_channels p)) (\<lambda>srcIndex.
           copyFrame p oc srcIndex)))
         (ints k))"
proof (rule safe_collect)
  fix i assume "i \<in> set (ints k)"
  then have i: "0 \<le> cur + i" "cur + i < m_totalFrames p" using assms(2,3) by auto
  show "safe (andThen (i32 (cur + i)) (\<lambda>f.
           andThen (i32 (f * m_channels p)) (\<lambda>srcIndex. copyFrame p oc srcIndex)))"
  proof (intro safe_andThen)
    fix f srcIndex
    assume "i32 (cur + i) = Inr f" "i32 (f * m_channels p) = Inr srcIndex"
    then have "f = cur + i" "srcIndex = (cur + i) * m_channels p" by (auto dest: i32_InrD)
    then show "safe (copyFrame p oc srcIndex)"
      using safe_copyFrame[OF assms(1) i assms(4)] by simp
  qed simp_all
qed

lemma safe_wrap:
  assumes "1 \<le> m_channels p" and "1 \<le> m_totalFrames p"
    and "int (length (m_interleavedData p)) = m_totalFrames p * m_channels p"
  shows "safe (collect (\<lambda>i.
           andThen (c_rem i (m_totalFrames p)) (\<lambda>f.
           andThen (i32 (f * m_channels p)) (\<lambda>srcIndex.
           copyFrame p oc srcIndex)))
         (ints k))"
proof (rule safe_collect)
  fix i assume "i \<in> set (ints k)"
  then have i0: "0 \<le> i" by simp
  have i: "0 \<le> i mod m_totalFrames p" "i mod m_totalFrames p < m_totalFrames p"
    using assms(2) by auto
  show "safe (andThen (c_rem i (m_totalFrames p)) (\<lambda>f.
           andThen (i32 (f * m_channels p)) (\<lambda>srcIndex. copyFrame p oc srcIndex)))"
    unfolding c_rem_nonneg[OF i0 assms(2)] andThen_Inr
  proof (intro safe_andThen)
    fix srcIndex
    assume "i32 (i mod m_totalFrames p * m_channels p) = Inr srcIndex"
    then have "srcIndex = (i mod m_totalFrames p) * m_channels p" by (auto dest: i32_InrD)
    then show "safe (copyFrame p oc srcIndex)"
      using safe_copyFrame[OF assms(1) i assms(3)] by simp
  qed simp_all
qed

text \<open>
  Claim C9. In the Playing state with a non-empty sample buffer of
  \<open>m_totalFrames * m_channels\<close> samples, at least one channel and a position in
  \<open>[0, m_totalFrames / m_sampleRate]\<close>, the callback reads no sample outside the buffer and
  takes no remainder by zero: its result is neither of these two undefined steps, and
  \<open>m_totalFrames\<close> is at least 1.
\<close>

theorem onAudioReady_reads_in_bounds:
  assumes "m_state p = AUDIO_STATE_PLAYING" and "m_interleavedData p \<noteq> []"
    and "int (length (m_interleavedData p)) = m_totalFrames p * m_channels p"
    and "1 \<le> m_channels p"
    and "fle (Fin 0) (m_currentTime p)" and "fle (m_currentTime p) (getMusicLength p)"
  shows "safe (onAudioReady s n p) \<and> 1 \<le> m_totalFrames p"
proof
  have "0 < int (length (m_interleavedData p))" using assms(2) by simp
  then have pos: "0 < m_totalFrames p * m_channels p" using assms(3) by simp
  show t: "1 \<le> m_totalFrames p"
  proof (rule ccontr)
    assume "\<not> 1 \<le> m_totalFrames p"
    then have "m_totalFrames p \<le> 0" by simp
    then have "m_totalFrames p * m_channels p \<le> 0"
      using assms(4) by (simp add: mult_nonpos_nonneg)
    then show False using pos by simp
  qed
  have "safe (andThen (currentFrame p) (\<lambda>cur.
         andThen (i32 (m_totalFrames p - cur)) (\<lambda>framesRemaining. body cur framesRemaining)))"
    if body: "\<And>cur. 0 \<le> cur \<Longrightarrow> safe (body cur (m_totalFrames p - cur))"
    for body :: "int \<Rightarrow> int \<Rightarrow> ub + (DataCallbackResult \<times> f32 list \<times> UnityAudioPlayer)"
  proof (intro safe_andThen)
    show "safe (currentFrame p)" by (simp add: currentFrame_def)
    fix cur fr assume c: "currentFrame p = Inr cur" and "i32 (m_totalFrames p - cur) = Inr fr"
    then have fr: "fr = m_totalFrames p - cur" by (auto dest: i32_InrD)
    have "0 \<le> cur" using currentFrame_nonneg[OF assms(5,6) _ c] t by simp
    then show "safe (body cur fr)" unfolding fr by (rule body)
  qed simp
  note outer = this
  show "safe (onAudioReady s n p)"
    unfolding onAudioReady_def Let_def
    apply (simp only: assms(1,2) simp_thms if_False)
    apply (rule outer)
    apply (intro safe_andThen)
    subgoal for cur
      using safe_frames[OF assms(4) _ _ assms(3), of cur "min n (m_totalFrames p - cur)"]
      by simp
    subgoal for cur copied
      using safe_wrap[OF assms(4) t assms(3)]
      by (auto intro!: safe_andThen)
    done
qed

theorem onAudioReady_reads_in_bounds_witness:
  "safe (onAudioReady stereo48k 8 threeFrames) \<and> 1 \<le> m_totalFrames threeFrames"
proof -
  have 1: "m_state threeFrames = AUDIO_STATE_PLAYING" by (simp add: threeFrames_def)
  have 2: "m_interleavedData threeFrames \<noteq> []" by (simp add: threeFrames_def)
  have 3: "int (length (m_interleavedData threeFrames)) =
           m_totalFrames threeFrames * m_channels threeFrames"
    by (simp add: threeFrames_def)
  have 4: "1 \<le> m_channels threeFrames" by (simp add: threeFrames_def)
  have 5: "fle (Fin 0) (m_currentTime threeFrames)" by (simp add: threeFrames_def newPlayer_def)
  have 6: "fle (m_currentTime threeFrames) (getMusicLength threeFrames)"
    by (simp add: threeFrames_def newPlayer_def getMusicLength_def f32_eval)
  show ?thesis by (rule onAudioReady_reads_in_bounds[OF 1 2 3 4 5 6])
qed

subsection \<open>Opening the stream\<close>

text \<open>
  Claim C3. \<open>play\<close> has no branch for the Playing state: called twice from Idle on a device
  that accepts both requests, it opens and starts a second stream and moves the player's
  pointer to it, while the first stream is still open and started. The second call is not a
  no-op and the device then has two open streams of this player.
\<close>

theorem play_twice_opens_two_streams:
  "play OK OK (play OK OK (newPlayer, newDevice)) =
     (newPlayer\<lparr> m_state := AUDIO_STATE_PLAYING, m_audioStream := Some 1 \<rparr>,
      \<lparr> opened = 2,
        streams = [(0, \<lparr> getChannelCount = 2, getSampleRate = 48000, getState = Started \<rparr>),
                   (1, \<lparr> getChannelCount = 2, getSampleRate = 48000, getState = Started \<rparr>)] \<rparr>) \<and>
   play OK OK (play OK OK (newPlayer, newDevice)) \<noteq> play OK OK (newPlayer, newDevice)"
  by (simp add: play_def openStream_def requestStart_def setStreamState_def newPlayer_def
      newDevice_def)

text \<open>
  When the stream opens and then fails to start, the state stays Idle and the opened stream
  stays in \<open>m_audioStream\<close>.
\<close>

theorem play_start_failure_keeps_stream:
  "play OK Error (newPlayer, newDevice) =
     (newPlayer\<lparr> m_audioStream := Some 0 \<rparr>,
      \<lparr> opened = 1,
        streams = [(0, \<lparr> getChannelCount = 2, getSampleRate = 48000, getState = Open \<rparr>)] \<rparr>) \<and>
   m_audioStream (fst (play OK Error (newPlayer, newDevice))) \<noteq> None"
  by (simp add: play_def openStream_def requestStart_def setStreamState_def newPlayer_def
      newDevice_def)

text \<open>
  Claim C5, amended. If \<open>play\<close> fails to open the output stream, or opens it and fails to
  start it, the player's state is the one before the call; if the open fails, the player
  retains no stream and the device is as before. (A paused player does not open a stream:
  \<open>play\<close> resumes the one it has.)
\<close>

theorem play_failure:
  assumes "openAnswer \<noteq> OK \<or> startAnswer \<noteq> OK" and "m_state p \<noteq> AUDIO_STATE_PAUSED"
  shows "m_state (fst (play openAnswer startAnswer (p, dev))) = m_state p \<and>
         (openAnswer \<noteq> OK \<longrightarrow>
            m_audioStream (fst (play openAnswer startAnswer (p, dev))) = None \<and>
            snd (play openAnswer startAnswer (p, dev)) = dev)"
  using assms by (auto simp: play_def openStream_def requestStart_def)

theorem play_failure_witness:
  "m_state (fst (play Error OK (newPlayer, newDevice))) = AUDIO_STATE_IDLE \<and>
   m_audioStream (fst (play Error OK (newPlayer, newDevice))) = None \<and>
   snd (play Error OK (newPlayer, newDevice)) = newDevice \<and>
   m_state (fst (play OK Error (newPlayer, newDevice))) = AUDIO_STATE_IDLE"
proof -
  have 1: "m_state newPlayer \<noteq> AUDIO_STATE_PAUSED" by (simp add: newPlayer_def)
  have 2: "m_state newPlayer = AUDIO_STATE_IDLE" by (simp add: newPlayer_def)
  have a: "Error \<noteq> OK \<or> OK \<noteq> OK" by simp
  have b: "OK \<noteq> OK \<or> Error \<noteq> OK" by simp
  show ?thesis
    using play_failure[OF a 1, of newDevice] play_failure[OF b 1, of newDevice] 2 by simp
qed

subsection \<open>Loading\<close>

text \<open>
  A failed \<open>setClip\<close> has already stored the requested path: \<open>m_clipPath\<close> is assigned
  before the load is attempted.
\<close>

theorem setClip_failure_overwrites_path:
  "setClip noFiles ''second.wav'' firstClip =
     Inr (False, firstClip\<lparr> m_clipPath := ''second.wav'' \<rparr>) \<and>
   m_clipPath (firstClip\<lparr> m_clipPath := ''second.wav'' \<rparr>) \<noteq> m_clipPath firstClip"
  by (simp add: setClip_def loadAudioData_def loadFileData_def loadAssetData_def noFiles_def
      firstClip_def Let_def)

text \<open>
  Claim C6, amended. Whenever \<open>setClip\<close> fails (the source is missing, unreadable or empty,
  or the decoder throws), it returns false and leaves the stored samples, the sample rate, the
  channel count and the total frame count as they were.
\<close>

theorem setClip_failure:
  assumes "loadFails env clipPath"
  shows "\<exists>p'. setClip env clipPath p = Inr (False, p') \<and>
           m_interleavedData p' = m_interleavedData p \<and>
           m_sampleRate p' = m_sampleRate p \<and>
           m_channels p' = m_channels p \<and>
           m_totalFrames p' = m_totalFrames p"
  using assms
  by (auto simp: loadFails_def setClip_def loadAudioData_def Let_def split: LoadOutcome.splits)

theorem setClip_failure_witness:
  "loadFails noFiles ''second.wav'' \<and> loadFails corruptFile ''second.wav'' \<and>
   (\<exists>p'. setClip noFiles ''second.wav'' firstClip = Inr (False, p') \<and>
           m_interleavedData p' = m_interleavedData firstClip \<and>
           m_sampleRate p' = m_sampleRate firstClip \<and>
           m_channels p' = m_channels firstClip \<and>
           m_totalFrames p' = m_totalFrames firstClip) \<and>
   (\<exists>p'. setClip corruptFile ''second.wav'' firstClip = Inr (False, p') \<and>
           m_interleavedData p' = m_interleavedData firstClip \<and>
           m_sampleRate p' = m_sampleRate firstClip \<and>
           m_channels p' = m_channels firstClip \<and>
           m_totalFrames p' = m_totalFrames firstClip)"
proof -
  have 1: "loadFails noFiles ''second.wav''"
    by (simp add: loadFails_def loadFileData_def noFiles_def)
  have 2: "loadFails corruptFile ''second.wav''"
    by (simp add: loadFails_def loadFileData_def corruptFile_def)
  show ?thesis
    using setClip_failure[OF 1, of firstClip] setClip_failure[OF 2, of firstClip] 1 2
    by simp
qed

subsection \<open>Delayed play\<close>

text \<open>
  Claim C4. \<open>playWithDelay\<close> clears \<open>m_delayCancelled\<close> and joins the pending worker
  without cancelling it. After \<open>playWithDelay(0.2)\<close> and, 50 ms later,
  \<open>playWithDelay(0.5)\<close>, the second call waits in \<open>join\<close> until the first worker has fired
  \<open>play\<close> at 200 ms, and the second worker fires \<open>play\<close> again at 700 ms: two calls of
  \<open>play\<close>, not one.
\<close>

theorem playWithDelay_twice_fires_twice:
  "(case delayScenario of Inl e \<Rightarrow> [] | Inr w \<Rightarrow> playCalls w) = [200, 700]"
  by (simp add: delayScenario_def playWithDelay_def startWorker_def joinWorker_def
      wakeWorker_def elapse_def newWorld_def newPlayer_def newDevice_def play_def
      openStream_def requestStart_def setStreamState_def Let_def f32_eval)

text \<open>The destructor does cancel: it sets \<open>m_delayCancelled\<close>, notifies and joins, and the
  pending worker returns without calling \<open>play\<close>.\<close>

lemma destroy_cancels_pending_delay:
  "(case playWithDelay OK OK (Fin (1 / 2)) newWorld of
      Inl e \<Rightarrow> [0]
    | Inr w \<Rightarrow> playCalls (elapse OK OK 2000 (destroy OK OK (elapse OK OK 50 w)))) = []"
  by (simp add: playWithDelay_def startWorker_def joinWorker_def
      wakeWorker_def elapse_def destroy_def newWorld_def newPlayer_def newDevice_def play_def
      openStream_def requestStart_def setStreamState_def Let_def f32_eval)

subsection \<open>Outside the assumptions of claim C9\<close>

text \<open>
  \<open>loadAudioData\<close> rounds \<open>samples.size() / m_channels\<close> down, so a decoded payload with
  fewer samples than channels gives a non-empty buffer with \<open>m_totalFrames = 0\<close>; with loop
  enabled the callback then takes a remainder by zero.
\<close>

lemma setClip_oddSamples:
  "setClip oddSamples ''odd.wav'' (newPlayer\<lparr> m_loop := True \<rparr>) =
     Inr (True, newPlayer\<lparr> m_loop := True, m_clipPath := ''odd.wav'',
        m_audioData := Some \<lparr> channelCount = 2, sampleRate = 48000, samples = [] \<rparr>,
        m_sampleRate := 48000, m_channels := 2, m_totalFrames := 0,
        m_interleavedData := [Fin (1 / 2)] \<rparr>)"
  by (simp add: setClip_def loadAudioData_def loadFileData_def oddSamples_def newPlayer_def
      to_size_t_def to_int_def Let_def)

lemma oddSamples_remainder_by_zero:
  "onAudioReady stereo48k 8
     (newPlayer\<lparr> m_state := AUDIO_STATE_PLAYING, m_loop := True, m_sampleRate := 48000,
        m_channels := 2, m_totalFrames := 0, m_interleavedData := [Fin (1 / 2)] \<rparr>) =
   Inl DivByZero"
  by (simp add: onAudioReady_def currentFrame_def stereo48k_def newPlayer_def Let_def i32_def
      ints_numeral ints_one ints_zero c_rem_def f32_eval)

text \<open>
  In single precision the position does not advance by exactly 512 frames per callback: after
  three callbacks \<open>currentFrame\<close> is 1535, not 1536.
\<close>

lemma fourth_callback_replays_a_frame:
  "callbacks 3 mono48k 512 oneSecond = Inr (oneSecond\<lparr> m_currentTime := Fin (4294967 / 134217728) \<rparr>) \<and>
   currentFrame (oneSecond\<lparr> m_currentTime := Fin (4294967 / 134217728) \<rparr>) = Inr 1535"
proof -
  have w: "wholeCallbacks 3 48000 48000 512 (Fin (5726623 / 536870912)) (Fin 0) =
      Some (Fin (4294967 / 134217728))"
    by (simp add: wholeCallbacks_numeral f32_eval)
  have "callbacks 3 mono48k 512 oneSecond = Inr (oneSecond\<lparr> m_currentTime := Fin (4294967 / 134217728) \<rparr>)"
  proof (rule callbacks_whole)
    show "wholeCallbacks 3 (m_sampleRate oneSecond) (m_totalFrames oneSecond) 512
        (frameTime mono48k 512) (m_currentTime oneSecond) = Some (Fin (4294967 / 134217728))"
      using w by (simp add: oneSecond_def newPlayer_def frameTime_512)
    show "m_state oneSecond = AUDIO_STATE_PLAYING" by (simp add: oneSecond_def)
    show "clipLoaded oneSecond" using clipLoaded_oneSecond[of "m_currentTime oneSecond"] by simp
  qed (simp_all add: mono48k_def)
  moreover have "currentFrame (oneSecond\<lparr> m_currentTime := Fin (4294967 / 134217728) \<rparr>) = Inr 1535"
    by (simp add: currentFrame_def oneSecond_def newPlayer_def f32_eval)
  ultimately show ?thesis by simp
qed

end
